theory Spec2Isabelle
  imports Complex_Main "HOL-Library.Word" "HOL-Library.Signed_Division"
begin

section \<open>hackrf\_beep: the two-tone sample generator\<close>

text \<open>
  A shallow embedding of \<^verbatim>\<open>hackrf_beep.c\<close>: the global phase variables, the four
  lookup tables filled by \<^verbatim>\<open>main\<close>, and the transmit callback \<^verbatim>\<open>tx_callback\<close>.

  Conventions of the embedding.
  \<^item> The C \<^verbatim>\<open>int\<close> variables \<^verbatim>\<open>co\<close>, \<^verbatim>\<open>mo\<close>, \<^verbatim>\<open>so\<close> and the \<^verbatim>\<open>long\<close> counter
    \<^verbatim>\<open>sn\<close> are values of type \<open>int\<close>. C's \<^verbatim>\<open>/\<close> and \<^verbatim>\<open>%\<close> truncate towards zero:
    they are \<open>sdiv\<close> and \<open>smod\<close>. Signed overflow of an \<^verbatim>\<open>int\<close> is undefined in C
    and is a fault of the model. The counter \<^verbatim>\<open>sn\<close> is a 64-bit \<^verbatim>\<open>long\<close> (LP64):
    \<^verbatim>\<open>sn += count\<close> is formed in \<^verbatim>\<open>unsigned long\<close> and converted back, so it wraps
    around, and the wrap-around is written out (\<open>wrap_long\<close>).
  \<^item> A read of a table outside its bounds is undefined in C and is a fault of the model.
  \<^item> \<^verbatim>\<open>transfer->buffer\<close> is a store from byte index to byte. The model does not know
    how long the buffer is, so that a write past \<^verbatim>\<open>valid_length\<close> is visible.
  \<^item> The \<^verbatim>\<open>double\<close> arithmetic of the table construction is idealised as exact real
    arithmetic; the cast to \<^verbatim>\<open>int8_t\<close> is modelled exactly (truncation towards zero,
    undefined when the truncated value does not fit).
\<close>

subsection \<open>Constants and global variables\<close>

text \<open>\<^verbatim>\<open>const uint32_t sr = 8000000\<close>, the sample rate.\<close>

definition sr :: int where
  "sr = 8000000"

text \<open>\<^verbatim>\<open>const double dm = 4.0 / 3.0\<close>, the depth of modulation.\<close>

definition dm :: real where
  "dm = 4 / 3"

text \<open>\<^verbatim>\<open>const double tau = 2.0 * M_PI\<close>.\<close>

definition tau :: real where
  "tau = 2 * pi"

text \<open>The largest value of a C \<^verbatim>\<open>int\<close> (32 bits).\<close>

definition INT_MAX :: int where
  "INT_MAX = 2147483647"

definition INT_MIN :: int where
  "INT_MIN = - 2147483648"

text \<open>The range of a C \<^verbatim>\<open>long\<close> (64 bits), and the value a sum has once it is stored in one.\<close>

definition LONG_MAX :: int where
  "LONG_MAX = 9223372036854775807"

definition LONG_MIN :: int where
  "LONG_MIN = - 9223372036854775808"

definition wrap_long :: "int \<Rightarrow> int" where
  "wrap_long x = (x + 9223372036854775808) mod 18446744073709551616 - 9223372036854775808"

text \<open>
  The playback phase offsets \<^verbatim>\<open>co\<close>, \<^verbatim>\<open>mo\<close>, \<^verbatim>\<open>so\<close>, the sample number \<^verbatim>\<open>sn\<close> and the
  mark-or-space flag \<^verbatim>\<open>ms\<close>.
\<close>

record phase =
  co :: int
  mo :: int
  so :: int
  sn :: int
  ms :: bool

text \<open>
  The lookup tables \<^verbatim>\<open>mi\<close>, \<^verbatim>\<open>mq\<close> (6666 rows of 10 cells) and \<^verbatim>\<open>si\<close>, \<^verbatim>\<open>sq\<close>
  (3636 rows of 10 cells) of \<^verbatim>\<open>int8_t\<close>.
\<close>

record tables =
  mi :: "nat \<Rightarrow> nat \<Rightarrow> 8 word"
  mq :: "nat \<Rightarrow> nat \<Rightarrow> 8 word"
  si :: "nat \<Rightarrow> nat \<Rightarrow> 8 word"
  sq :: "nat \<Rightarrow> nat \<Rightarrow> 8 word"

type_synonym buffer = "nat \<Rightarrow> 8 word"

datatype fault = Index_out_of_bounds | Signed_overflow | Conversion_out_of_range

subsection \<open>The transmit callback\<close>

text \<open>
  The two \<^verbatim>\<open>while\<close> loops of \<^verbatim>\<open>tx_callback\<close> are the same loop over different data:
  \<^verbatim>\<open>
  while ( i < count )
    {
    ( transfer->buffer ) [i++] = mi[mo][co] ;
    ( transfer->buffer ) [i++] = mq[mo][co] ;
    co++ ; co %= 10 ;
    mo++ ; mo %= 6666 ;
    }
  \<close>
  with \<open>ti\<close>, \<open>tq\<close> the two tables read, \<open>n\<close> their number of rows (6666 or 3636) and
  \<open>a\<close> the offset that is driven forward (\<^verbatim>\<open>mo\<close> or \<^verbatim>\<open>so\<close>). The loop state is
  \<open>(i, c, a, buf)\<close>. The loop always stores a whole I/Q pair. The index \<^verbatim>\<open>i\<close> is a C
  \<^verbatim>\<open>int\<close> compared with the \<^verbatim>\<open>size_t\<close> length: a round that would take it past
  \<open>INT_MAX\<close> is the fault \<open>Signed_overflow\<close>, a round that reads a table with an
  offset out of range is the fault \<open>Index_out_of_bounds\<close>. The \<^verbatim>\<open>int8_t\<close> cell is
  stored into the \<^verbatim>\<open>uint8_t\<close> buffer with its eight bits unchanged.
\<close>

function fill_loop ::
  "(nat \<Rightarrow> nat \<Rightarrow> 8 word) \<Rightarrow> (nat \<Rightarrow> nat \<Rightarrow> 8 word) \<Rightarrow> int \<Rightarrow> nat \<Rightarrow>
   nat \<times> int \<times> int \<times> buffer \<Rightarrow> fault + (nat \<times> int \<times> int \<times> buffer)" where
  "fill_loop ti tq n count (i, c, a, buf) =
     (if i < count then
        (if 0 \<le> a \<and> a < n \<and> 0 \<le> c \<and> c < 10 then
           (if int i + 2 \<le> INT_MAX then
              fill_loop ti tq n count
                (i + 2, (c + 1) smod 10, (a + 1) smod n,
                 buf(i := ti (nat a) (nat c), i + 1 := tq (nat a) (nat c)))
            else Inl Signed_overflow)
         else Inl Index_out_of_bounds)
      else Inr (i, c, a, buf))"
  by pat_completeness auto
termination
  by (relation "measure (\<lambda>(ti, tq, n, count, i, c, a, buf). count - i)") auto

declare fill_loop.simps [simp del]

text \<open>
  The translation of the phase of the tone that is not playing,
  \<^verbatim>\<open>so =  3636 * mo / 6666\<close> and \<^verbatim>\<open>mo =  6666 * so / 3636\<close>: an \<^verbatim>\<open>int\<close> product and a
  truncating division.
\<close>

definition translate :: "int \<Rightarrow> int \<Rightarrow> int \<Rightarrow> fault + int" where
  "translate m a n =
     (if INT_MIN \<le> m * a \<and> m * a \<le> INT_MAX then Inr ((m * a) sdiv n)
      else Inl Signed_overflow)"

text \<open>
  \<^verbatim>\<open>
  sn += count ;
  if ( sn >= sr ) { ms = !ms ; sn -= sr ; }
  \<close>
  The sum of the \<^verbatim>\<open>long\<close> and the \<^verbatim>\<open>size_t\<close> is taken modulo \<open>2\<^sup>6\<^sup>4\<close> and read
  back as a signed value; the comparison with the \<^verbatim>\<open>uint32_t\<close> rate is a comparison of
  \<^verbatim>\<open>long\<close> values, and the subtraction cannot overflow, the counter being at least
  \<open>sr\<close> there.
\<close>

definition every_second :: "phase \<Rightarrow> nat \<Rightarrow> phase" where
  "every_second st count =
     (let st1 = st\<lparr>sn := wrap_long (sn st + int count)\<rparr>
      in if sn st1 \<ge> sr then st1\<lparr>ms := \<not> ms st1, sn := sn st1 - sr\<rparr> else st1)"

text \<open>
  \<^verbatim>\<open>tx_callback\<close>: \<open>count\<close> is \<^verbatim>\<open>transfer->valid_length\<close>, \<open>buf\<close> is
  \<^verbatim>\<open>transfer->buffer\<close>. The result is the new global state, the buffer and the returned
  status.
\<close>

definition tx_callback ::
  "tables \<Rightarrow> phase \<Rightarrow> buffer \<Rightarrow> nat \<Rightarrow> fault + (phase \<times> buffer \<times> int)" where
  "tx_callback T st buf count =
     (if ms st then
        (case fill_loop (mi T) (mq T) 6666 count (0, co st, mo st, buf) of
           Inl f \<Rightarrow> Inl f
         | Inr (i, c, m, buf') \<Rightarrow>
             (case translate 3636 m 6666 of
                Inl f \<Rightarrow> Inl f
              | Inr s \<Rightarrow> Inr (every_second (st\<lparr>co := c, mo := m, so := s\<rparr>) count, buf', 0)))
      else
        (case fill_loop (si T) (sq T) 3636 count (0, co st, so st, buf) of
           Inl f \<Rightarrow> Inl f
         | Inr (i, c, s, buf') \<Rightarrow>
             (case translate 6666 s 3636 of
                Inl f \<Rightarrow> Inl f
              | Inr m \<Rightarrow> Inr (every_second (st\<lparr>co := c, so := s, mo := m\<rparr>) count, buf', 0))))"

text \<open>The start of \<^verbatim>\<open>main\<close>: \<^verbatim>\<open>co = 0 ; mo = 0 ; so = 0 ; sn = 0L ; ms = false\<close>.\<close>

definition init :: phase where
  "init = \<lparr>co = 0, mo = 0, so = 0, sn = 0, ms = False\<rparr>"


text \<open>
  The ranges of the three offsets: \<^verbatim>\<open>co\<close> indexes the 10 columns of every table,
  \<^verbatim>\<open>mo\<close> the 6666 rows of \<^verbatim>\<open>mi\<close>, \<^verbatim>\<open>mq\<close> and \<^verbatim>\<open>so\<close> the 3636 rows of \<^verbatim>\<open>si\<close>,
  \<^verbatim>\<open>sq\<close>.
\<close>

definition phase_ok :: "phase \<Rightarrow> bool" where
  "phase_ok st =
     (0 \<le> co st \<and> co st < 10 \<and> 0 \<le> mo st \<and> mo st < 6666 \<and> 0 \<le> so st \<and> so st < 3636)"

text \<open>
  The tone that plays during a call is the one \<^verbatim>\<open>ms\<close> selects on entry: its tables, the
  number of their rows and the offset the loop drives forward.
\<close>

definition cycle :: "bool \<Rightarrow> int" where
  "cycle tone = (if tone then 6666 else 3636)"

definition ao :: "bool \<Rightarrow> phase \<Rightarrow> int" where
  "ao tone st = (if tone then mo st else so st)"

definition active_i :: "bool \<Rightarrow> tables \<Rightarrow> nat \<Rightarrow> nat \<Rightarrow> 8 word" where
  "active_i tone T = (if tone then mi T else si T)"

definition active_q :: "bool \<Rightarrow> tables \<Rightarrow> nat \<Rightarrow> nat \<Rightarrow> 8 word" where
  "active_q tone T = (if tone then mq T else sq T)"

text \<open>The carrier offset and the offset of the playing tone are in range.\<close>

definition active_ok :: "phase \<Rightarrow> bool" where
  "active_ok st =
     (0 \<le> co st \<and> co st < 10 \<and> 0 \<le> ao (ms st) st \<and> ao (ms st) st < cycle (ms st))"

text \<open>
  The number of I/Q pairs the loop stores when it is entered with index \<open>i\<close>: one for
  every two bytes still missing, rounded up.
\<close>

definition pairs :: "nat \<Rightarrow> nat \<Rightarrow> nat" where
  "pairs count i = (count + 1 - i) div 2"

text \<open>
  The \<open>j\<close>-th byte that follows the offsets \<open>c\<close> and \<open>a\<close>: I samples at the even
  places, Q samples at the odd ones, both offsets stepping once per pair.
\<close>

definition emitted ::
  "(nat \<Rightarrow> nat \<Rightarrow> 8 word) \<Rightarrow> (nat \<Rightarrow> nat \<Rightarrow> 8 word) \<Rightarrow> int \<Rightarrow> int \<Rightarrow> int \<Rightarrow> nat \<Rightarrow> 8 word" where
  "emitted ti tq n c a j =
     (if even j then ti (nat ((a + int (j div 2)) mod n)) (nat ((c + int (j div 2)) mod 10))
      else tq (nat ((a + int (j div 2)) mod n)) (nat ((c + int (j div 2)) mod 10)))"

text \<open>
  What a caller can see of a call with \<^verbatim>\<open>valid_length = count\<close>: the fault, or the new
  global state, the first \<open>count\<close> bytes of the buffer and the status.
\<close>

definition observe ::
  "nat \<Rightarrow> fault + (phase \<times> buffer \<times> int) \<Rightarrow> fault + (phase \<times> 8 word list \<times> int)" where
  "observe count r =
     (case r of Inl f \<Rightarrow> Inl f | Inr (st, buf, status) \<Rightarrow> Inr (st, map buf [0..<count], status))"

text \<open>A buffer of zero bytes.\<close>

definition zero_buffer :: buffer where
  "zero_buffer = (\<lambda>j. 0)"

subsection \<open>The table construction in \<^verbatim>\<open>main\<close>\<close>

text \<open>
  The cast \<^verbatim>\<open>( int8_t ) x\<close> of a \<^verbatim>\<open>double\<close>: the fractional part is discarded, and the
  behaviour is undefined when the integral part is not an \<^verbatim>\<open>int8_t\<close>.
\<close>

definition trunc_zero :: "real \<Rightarrow> int" where
  "trunc_zero x = (if 0 \<le> x then \<lfloor>x\<rfloor> else \<lceil>x\<rceil>)"

definition int8_of_double :: "real \<Rightarrow> fault + 8 word" where
  "int8_of_double x =
     (if - 128 \<le> trunc_zero x \<and> trunc_zero x \<le> 127 then Inr (word_of_int (trunc_zero x))
      else Inl Conversion_out_of_range)"

text \<open>
  The body of both precalculation loops, for a table of \<open>n\<close> rows
  (\<^verbatim>\<open>6666.0\<close> or \<^verbatim>\<open>3636.0\<close>):
  \<^verbatim>\<open>
  sa = s * tau / 6666.0 ;
  ca = c * tau / 10.0 ;
  mi[s][c] = ( int8_t ) ( 127.0 * sin ( ca - dm * cos ( sa ) ) ) ;
  mq[s][c] = ( int8_t ) ( 127.0 * cos ( ca - dm * cos ( sa ) ) ) ;
  \<close>
\<close>

definition precalc_i :: "real \<Rightarrow> nat \<Rightarrow> nat \<Rightarrow> fault + 8 word" where
  "precalc_i n s c =
     (let sa = real s * tau / n; ca = real c * tau / 10
      in int8_of_double (127 * sin (ca - dm * cos sa)))"

definition precalc_q :: "real \<Rightarrow> nat \<Rightarrow> nat \<Rightarrow> fault + 8 word" where
  "precalc_q n s c =
     (let sa = real s * tau / n; ca = real c * tau / 10
      in int8_of_double (127 * cos (ca - dm * cos sa)))"

text \<open>
  The tables as \<^verbatim>\<open>main\<close> leaves them. The arrays are globals, zero before \<^verbatim>\<open>main\<close>
  runs; a cell whose conversion were undefined is left at zero here, and
  \<open>precalc_defined\<close> below shows that there is no such cell.
\<close>

definition cell :: "fault + 8 word \<Rightarrow> 8 word" where
  "cell r = (case r of Inl f \<Rightarrow> 0 | Inr v \<Rightarrow> v)"

definition hackrf_tables :: tables where
  "hackrf_tables =
     \<lparr>mi = (\<lambda>s c. cell (precalc_i 6666 s c)), mq = (\<lambda>s c. cell (precalc_q 6666 s c)),
      si = (\<lambda>s c. cell (precalc_i 3636 s c)), sq = (\<lambda>s c. cell (precalc_q 3636 s c))\<rparr>"

text \<open>
  The Q cell as the specification words it: the nearest integer to
  \<open>127 cos (2\<pi>c/10 - 4/3 cos (2\<pi>s/N))\<close>.
\<close>

definition spec_q :: "nat \<Rightarrow> nat \<Rightarrow> nat \<Rightarrow> int" where
  "spec_q N s c = round (127 * cos (2 * pi * real c / 10 - 4 / 3 * cos (2 * pi * real s / real N)))"

section \<open>The fill loop in closed form\<close>

lemma smod_nonneg: "0 \<le> x \<Longrightarrow> 0 < n \<Longrightarrow> (x::int) smod n = x mod n"
  by (simp add: smod_int_alt_def sgn_if)

lemma sdiv_nonneg: "0 \<le> x \<Longrightarrow> 0 < n \<Longrightarrow> (x::int) sdiv n = x div n"
  by (simp add: signed_divide_int_def sgn_if)

lemma succ_mod: "((x + 1) mod n + int k) mod n = (x + int (Suc k)) mod (n::int)"
proof -
  have "((x + 1) mod n + int k) mod n = ((x + 1) + int k) mod n"
    by (rule mod_add_left_eq)
  also have "(x + 1) + int k = x + int (Suc k)"
    by simp
  finally show ?thesis .
qed

lemma shift_mod: "((x + 1) mod n + int (j div 2)) mod n = (x + int ((j + 2) div 2)) mod (n::int)"
  using succ_mod [of x n "j div 2"] by simp

lemma emitted_shift:
  "emitted ti tq n ((c + 1) mod 10) ((a + 1) mod n) j = emitted ti tq n c a (j + 2)"
  unfolding emitted_def by (simp only: shift_mod even_add even_numeral) simp

lemma emitted_0:
  "0 \<le> c \<Longrightarrow> c < 10 \<Longrightarrow> 0 \<le> a \<Longrightarrow> a < n \<Longrightarrow> emitted ti tq n c a 0 = ti (nat a) (nat c)"
  by (simp add: emitted_def)

lemma emitted_1:
  "0 \<le> c \<Longrightarrow> c < 10 \<Longrightarrow> 0 \<le> a \<Longrightarrow> a < n \<Longrightarrow>
   emitted ti tq n c a (Suc 0) = tq (nat a) (nat c)"
  by (simp add: emitted_def)

lemma pairs_step: "i < count \<Longrightarrow> pairs count i = Suc (pairs count (i + 2))"
  unfolding pairs_def by arith

text \<open>
  From offsets in range and a length that the \<^verbatim>\<open>int\<close> index can count, the loop does not
  fault; it stores \<open>pairs count i\<close> pairs from index \<open>i\<close> on and advances both offsets
  by that many steps.
\<close>

lemma fill_loop_closed:
  assumes "0 < n" "int count \<le> INT_MAX - 1"
  shows "0 \<le> c \<Longrightarrow> c < 10 \<Longrightarrow> 0 \<le> a \<Longrightarrow> a < n \<Longrightarrow>
    \<exists>buf'. fill_loop ti tq n count (i, c, a, buf) =
             Inr (i + 2 * pairs count i, (c + int (pairs count i)) mod 10,
                  (a + int (pairs count i)) mod n, buf')
         \<and> (\<forall>j. buf' j = (if i \<le> j \<and> j < i + 2 * pairs count i
                          then emitted ti tq n c a (j - i) else buf j))"
  using assms
proof (induction ti tq n count "(i, c, a, buf)" arbitrary: i c a buf rule: fill_loop.induct)
  case (1 ti tq n count i c a buf)
  show ?case
  proof (cases "i < count")
    case False
    then have "pairs count i = 0" by (simp add: pairs_def)
    with False 1(2-5) show ?thesis by (auto simp: fill_loop.simps)
  next
    case True
    have ov: "int i + 2 \<le> INT_MAX" using True 1(7) by simp
    have rng: "0 \<le> a \<and> a < n \<and> 0 \<le> c \<and> c < 10" using 1 by simp
    let ?c = "(c + 1) mod 10" and ?a = "(a + 1) mod n"
    let ?b = "buf(i := ti (nat a) (nat c), i + 1 := tq (nat a) (nat c))"
    have c': "(c + 1) smod 10 = ?c" using rng by (simp add: smod_nonneg)
    have a': "(a + 1) smod n = ?a" using rng by (simp add: smod_nonneg)
    have step: "fill_loop ti tq n count (i, c, a, buf) = fill_loop ti tq n count (i + 2, ?c, ?a, ?b)"
      using True ov rng by (subst fill_loop.simps) (simp add: c' a')
    have "0 \<le> ?c" "?c < 10" "0 \<le> ?a" "?a < n" using 1(6) by simp_all
    from "1.hyps"[OF True rng ov, unfolded c' a', OF this 1(6,7)]
    obtain buf' where r: "fill_loop ti tq n count (i + 2, ?c, ?a, ?b) =
             Inr (i + 2 + 2 * pairs count (i + 2), (?c + int (pairs count (i + 2))) mod 10,
                  (?a + int (pairs count (i + 2))) mod n, buf')"
      and b: "\<And>j. buf' j = (if i + 2 \<le> j \<and> j < i + 2 + 2 * pairs count (i + 2)
                          then emitted ti tq n ?c ?a (j - (i + 2)) else ?b j)"
      by blast
    have p: "pairs count i = Suc (pairs count (i + 2))" using True by (rule pairs_step)
    have e1: "(?c + int (pairs count (i + 2))) mod 10 = (c + int (pairs count i)) mod 10"
      unfolding p by (rule succ_mod)
    have e2: "(?a + int (pairs count (i + 2))) mod n = (a + int (pairs count i)) mod n"
      unfolding p by (rule succ_mod)
    have e3: "i + 2 + 2 * pairs count (i + 2) = i + 2 * pairs count i"
      unfolding p by simp
    note b = b [unfolded e3]
    have "buf' j = (if i \<le> j \<and> j < i + 2 * pairs count i
                          then emitted ti tq n c a (j - i) else buf j)" for j
    proof -
      consider "j < i" | "j = i" | "j = i + 1" | "i + 2 \<le> j" by linarith
      then show ?thesis
      proof cases
        case 1 then show ?thesis by (simp add: b)
      next
        case 2 then show ?thesis using rng by (simp add: b p emitted_0)
      next
        case 3 then show ?thesis using rng by (simp add: b p emitted_1)
      next
        case 4
        then have "j - (i + 2) + 2 = j - i" by simp
        then have "emitted ti tq n ?c ?a (j - (i + 2)) = emitted ti tq n c a (j - i)"
          by (simp add: emitted_shift)
        with 4 show ?thesis by (simp add: b)
      qed
    qed
    with r step e1 e2 e3 show ?thesis by simp
  qed
qed

lemma translate_in_range:
  "0 \<le> a \<Longrightarrow> a < 6666 \<Longrightarrow> 0 < n \<Longrightarrow> translate 3636 a n = Inr ((3636 * a) div n)"
  "0 \<le> a \<Longrightarrow> a < 3636 \<Longrightarrow> 0 < n \<Longrightarrow> translate 6666 a n = Inr ((6666 * a) div n)"
  by (simp_all add: translate_def INT_MIN_def INT_MAX_def sdiv_nonneg)

text \<open>The whole callback while the mark tone plays, and while the space tone plays.\<close>

lemma tx_callback_mark:
  assumes "ms st" "0 \<le> co st" "co st < 10" "0 \<le> mo st" "mo st < 6666"
    and "int count \<le> INT_MAX - 1"
  shows "\<exists>buf'. tx_callback T st buf count =
           Inr (every_second
                  (st\<lparr>co := (co st + int (pairs count 0)) mod 10,
                      mo := (mo st + int (pairs count 0)) mod 6666,
                      so := (3636 * ((mo st + int (pairs count 0)) mod 6666)) div 6666\<rparr>) count,
                buf', 0)
         \<and> (\<forall>j. buf' j = (if j < 2 * pairs count 0
                          then emitted (mi T) (mq T) 6666 (co st) (mo st) j else buf j))"
proof -
  obtain buf' where
    r: "fill_loop (mi T) (mq T) 6666 count (0, co st, mo st, buf) =
          Inr (0 + 2 * pairs count 0, (co st + int (pairs count 0)) mod 10,
               (mo st + int (pairs count 0)) mod 6666, buf')"
    and b: "\<forall>j. buf' j = (if 0 \<le> j \<and> j < 0 + 2 * pairs count 0
                          then emitted (mi T) (mq T) 6666 (co st) (mo st) (j - 0) else buf j)"
    using fill_loop_closed [of 6666 count "co st" "mo st" "mi T" "mq T" 0 buf] assms
    by auto
  have t: "translate 3636 ((mo st + int (pairs count 0)) mod 6666) 6666 =
             Inr ((3636 * ((mo st + int (pairs count 0)) mod 6666)) div 6666)"
    by (rule translate_in_range) simp_all
  show ?thesis
    using assms(1) b by (simp add: tx_callback_def r t)
qed

lemma tx_callback_space:
  assumes "\<not> ms st" "0 \<le> co st" "co st < 10" "0 \<le> so st" "so st < 3636"
    and "int count \<le> INT_MAX - 1"
  shows "\<exists>buf'. tx_callback T st buf count =
           Inr (every_second
                  (st\<lparr>co := (co st + int (pairs count 0)) mod 10,
                      so := (so st + int (pairs count 0)) mod 3636,
                      mo := (6666 * ((so st + int (pairs count 0)) mod 3636)) div 3636\<rparr>) count,
                buf', 0)
         \<and> (\<forall>j. buf' j = (if j < 2 * pairs count 0
                          then emitted (si T) (sq T) 3636 (co st) (so st) j else buf j))"
proof -
  obtain buf' where
    r: "fill_loop (si T) (sq T) 3636 count (0, co st, so st, buf) =
          Inr (0 + 2 * pairs count 0, (co st + int (pairs count 0)) mod 10,
               (so st + int (pairs count 0)) mod 3636, buf')"
    and b: "\<forall>j. buf' j = (if 0 \<le> j \<and> j < 0 + 2 * pairs count 0
                          then emitted (si T) (sq T) 3636 (co st) (so st) (j - 0) else buf j)"
    using fill_loop_closed [of 3636 count "co st" "so st" "si T" "sq T" 0 buf] assms
    by auto
  have t: "translate 6666 ((so st + int (pairs count 0)) mod 3636) 3636 =
             Inr ((6666 * ((so st + int (pairs count 0)) mod 3636)) div 3636)"
    by (rule translate_in_range) simp_all
  show ?thesis
    using assms(1) b by (simp add: tx_callback_def r t)
qed

lemma every_second_offsets [simp]:
  "co (every_second st count) = co st"
  "mo (every_second st count) = mo st"
  "so (every_second st count) = so st"
  by (simp_all add: every_second_def Let_def)

lemma phase_ok_every_second [simp]: "phase_ok (every_second st count) = phase_ok st"
  by (simp add: phase_ok_def)

lemma phase_ok_init: "phase_ok init"
  by (simp add: phase_ok_def init_def)

lemma hackrf_length_fits: "int 262144 \<le> INT_MAX - 1"
  by (simp add: INT_MAX_def)

lemma wrap_long_in_range: "LONG_MIN \<le> x \<Longrightarrow> x \<le> LONG_MAX \<Longrightarrow> wrap_long x = x"
  by (simp add: wrap_long_def LONG_MIN_def LONG_MAX_def)

lemma every_second_fields:
  "sn (every_second st count) =
     (if sr \<le> wrap_long (sn st + int count) then wrap_long (sn st + int count) - sr
      else wrap_long (sn st + int count))"
  "ms (every_second st count) =
     (if sr \<le> wrap_long (sn st + int count) then \<not> ms st else ms st)"
  by (simp_all add: every_second_def Let_def)

text \<open>
  At the top of the range the counter wraps: from \<open>sn = LONG_MAX\<close> two more bytes leave
  \<open>sn = - 9223372036854775807\<close> and the tone does not flip.
\<close>

lemma every_second_wraps:
  "every_second (init\<lparr>sn := LONG_MAX\<rparr>) 2 = init\<lparr>sn := - 9223372036854775807\<rparr>"
  by (simp add: every_second_def Let_def wrap_long_def LONG_MAX_def sr_def init_def)

lemma tx_callback_active:
  assumes "active_ok st" "int count \<le> INT_MAX - 1"
  obtains st1 buf' where
    "tx_callback T st buf count = Inr (every_second st1 count, buf', 0)"
    "co st1 = (co st + int (pairs count 0)) mod 10"
    "ao (ms st) st1 = (ao (ms st) st + int (pairs count 0)) mod cycle (ms st)"
    "ao (\<not> ms st) st1 = (cycle (\<not> ms st) * ao (ms st) st1) div cycle (ms st)"
    "ms st1 = ms st" "sn st1 = sn st"
    "\<forall>j. buf' j = (if j < 2 * pairs count 0
               then emitted (active_i (ms st) T) (active_q (ms st) T) (cycle (ms st))
                      (co st) (ao (ms st) st) j
               else buf j)"
proof (cases "ms st")
  case True
  with assms have "0 \<le> co st" "co st < 10" "0 \<le> mo st" "mo st < 6666"
    by (simp_all add: active_ok_def ao_def cycle_def)
  from tx_callback_mark [OF True this assms(2), of T buf] obtain buf' where
    "tx_callback T st buf count =
           Inr (every_second
                  (st\<lparr>co := (co st + int (pairs count 0)) mod 10,
                      mo := (mo st + int (pairs count 0)) mod 6666,
                      so := (3636 * ((mo st + int (pairs count 0)) mod 6666)) div 6666\<rparr>) count,
                buf', 0)"
     "\<And>j. buf' j = (if j < 2 * pairs count 0
                          then emitted (mi T) (mq T) 6666 (co st) (mo st) j else buf j)"
    by blast
  with True show ?thesis
    by (intro that [of "st\<lparr>co := (co st + int (pairs count 0)) mod 10,
                      mo := (mo st + int (pairs count 0)) mod 6666,
                      so := (3636 * ((mo st + int (pairs count 0)) mod 6666)) div 6666\<rparr>" buf'])
       (simp_all add: ao_def cycle_def active_i_def active_q_def)
next
  case False
  with assms have "0 \<le> co st" "co st < 10" "0 \<le> so st" "so st < 3636"
    by (simp_all add: active_ok_def ao_def cycle_def)
  from tx_callback_space [OF False this assms(2), of T buf] obtain buf' where
    "tx_callback T st buf count =
           Inr (every_second
                  (st\<lparr>co := (co st + int (pairs count 0)) mod 10,
                      so := (so st + int (pairs count 0)) mod 3636,
                      mo := (6666 * ((so st + int (pairs count 0)) mod 3636)) div 3636\<rparr>) count,
                buf', 0)"
     "\<And>j. buf' j = (if j < 2 * pairs count 0
                          then emitted (si T) (sq T) 3636 (co st) (so st) j else buf j)"
    by blast
  with False show ?thesis
    by (intro that [of "st\<lparr>co := (co st + int (pairs count 0)) mod 10,
                      so := (so st + int (pairs count 0)) mod 3636,
                      mo := (6666 * ((so st + int (pairs count 0)) mod 3636)) div 3636\<rparr>" buf'])
       (simp_all add: ao_def cycle_def active_i_def active_q_def)
qed

lemma ao_every_second [simp]: "ao tone (every_second st count) = ao tone st"
  by (simp add: ao_def)

lemma active_ok_init: "active_ok init"
  by (simp add: active_ok_def init_def ao_def cycle_def)

lemma tx_callback_status:
  assumes "tx_callback T st buf count = Inr (st', buf', r)"
  shows "r = 0"
proof (cases "ms st")
  case True
  show ?thesis
  proof (cases "fill_loop (mi T) (mq T) 6666 count (0, co st, mo st, buf)")
    case (Inl f)
    with True assms show ?thesis by (simp add: tx_callback_def)
  next
    case (Inr x)
    obtain i c m b where x: "x = (i, c, m, b)" by (cases x)
    show ?thesis
    proof (cases "translate 3636 m 6666")
      case (Inl f)
      with True Inr x assms show ?thesis by (simp add: tx_callback_def)
    next
      case (Inr s)
      with True \<open>fill_loop (mi T) (mq T) 6666 count (0, co st, mo st, buf) = Inr x\<close> x assms
      show ?thesis by (simp add: tx_callback_def)
    qed
  qed
next
  case False
  show ?thesis
  proof (cases "fill_loop (si T) (sq T) 3636 count (0, co st, so st, buf)")
    case (Inl f)
    with False assms show ?thesis by (simp add: tx_callback_def)
  next
    case (Inr x)
    obtain i c s b where x: "x = (i, c, s, b)" by (cases x)
    show ?thesis
    proof (cases "translate 6666 s 3636")
      case (Inl f)
      with False Inr x assms show ?thesis by (simp add: tx_callback_def)
    next
      case (Inr m)
      with False \<open>fill_loop (si T) (sq T) 3636 count (0, co st, so st, buf) = Inr x\<close> x assms
      show ?thesis by (simp add: tx_callback_def)
    qed
  qed
qed

lemma two_seconds_fit: "int 16000000 \<le> INT_MAX - 1"
  by (simp add: INT_MAX_def)





text \<open>
  Two runs of the loop from the same index and offsets fault alike or end alike, with
  buffers that agree below the final index wherever they agreed below the first.
\<close>

lemma fill_loop_buffers:
  "\<forall>j<i. b1 j = b2 j \<Longrightarrow>
   (\<exists>f. fill_loop ti tq n count (i, c, a, b1) = Inl f \<and>
        fill_loop ti tq n count (i, c, a, b2) = Inl f) \<or>
   (\<exists>i' c' a' b1' b2'.
        fill_loop ti tq n count (i, c, a, b1) = Inr (i', c', a', b1') \<and>
        fill_loop ti tq n count (i, c, a, b2) = Inr (i', c', a', b2') \<and>
        count \<le> i' \<and> (\<forall>j<i'. b1' j = b2' j))"
proof (induction ti tq n count "(i, c, a, b1)" arbitrary: i c a b1 b2 rule: fill_loop.induct)
  case (1 ti tq n count i c a b1)
  show ?case
  proof (cases "i < count \<and> (0 \<le> a \<and> a < n \<and> 0 \<le> c \<and> c < 10) \<and> int i + 2 \<le> INT_MAX")
    case True
    let ?x = "ti (nat a) (nat c)" and ?y = "tq (nat a) (nat c)"
    have s: "fill_loop ti tq n count (i, c, a, b) =
             fill_loop ti tq n count (i + 2, (c + 1) smod 10, (a + 1) smod n,
               b(i := ?x, i + 1 := ?y))" for b
      using True by (subst fill_loop.simps) simp
    have "\<forall>j<i + 2. (b1(i := ?x, i + 1 := ?y)) j = (b2(i := ?x, i + 1 := ?y)) j"
      using 1(2) by simp
    from "1.hyps" [OF _ _ _ this] True show ?thesis
      unfolding s by blast
  next
    case False
    then show ?thesis
      using 1(2) by (subst (1 2 3 4) fill_loop.simps) auto
  qed
qed

lemma observe_mark:
  "ms st \<Longrightarrow>
   observe count (tx_callback T st buf1 count) = observe count (tx_callback T st buf2 count)"
proof -
  assume t: "ms st"
  have "(\<exists>f. fill_loop (mi T) (mq T) 6666 count (0, co st, mo st, buf1) = Inl f \<and>
        fill_loop (mi T) (mq T) 6666 count (0, co st, mo st, buf2) = Inl f) \<or>
   (\<exists>i' c' a' b1' b2'.
        fill_loop (mi T) (mq T) 6666 count (0, co st, mo st, buf1) = Inr (i', c', a', b1') \<and>
        fill_loop (mi T) (mq T) 6666 count (0, co st, mo st, buf2) = Inr (i', c', a', b2') \<and>
        count \<le> i' \<and> (\<forall>j<i'. b1' j = b2' j))"
    by (rule fill_loop_buffers) simp
  then show ?thesis
  proof (elim disjE exE conjE)
    fix f
    assume "fill_loop (mi T) (mq T) 6666 count (0, co st, mo st, buf1) = Inl f"
      "fill_loop (mi T) (mq T) 6666 count (0, co st, mo st, buf2) = Inl f"
    with t show ?thesis by (simp add: tx_callback_def)
  next
    fix i' c' a' b1' b2'
    assume "fill_loop (mi T) (mq T) 6666 count (0, co st, mo st, buf1) = Inr (i', c', a', b1')"
      "fill_loop (mi T) (mq T) 6666 count (0, co st, mo st, buf2) = Inr (i', c', a', b2')"
      "count \<le> i'" "\<forall>j<i'. b1' j = b2' j"
    with t show ?thesis
      by (simp add: tx_callback_def observe_def split: sum.splits)
  qed
qed

lemma observe_space:
  "\<not> ms st \<Longrightarrow>
   observe count (tx_callback T st buf1 count) = observe count (tx_callback T st buf2 count)"
proof -
  assume t: "\<not> ms st"
  have "(\<exists>f. fill_loop (si T) (sq T) 3636 count (0, co st, so st, buf1) = Inl f \<and>
        fill_loop (si T) (sq T) 3636 count (0, co st, so st, buf2) = Inl f) \<or>
   (\<exists>i' c' a' b1' b2'.
        fill_loop (si T) (sq T) 3636 count (0, co st, so st, buf1) = Inr (i', c', a', b1') \<and>
        fill_loop (si T) (sq T) 3636 count (0, co st, so st, buf2) = Inr (i', c', a', b2') \<and>
        count \<le> i' \<and> (\<forall>j<i'. b1' j = b2' j))"
    by (rule fill_loop_buffers) simp
  then show ?thesis
  proof (elim disjE exE conjE)
    fix f
    assume "fill_loop (si T) (sq T) 3636 count (0, co st, so st, buf1) = Inl f"
      "fill_loop (si T) (sq T) 3636 count (0, co st, so st, buf2) = Inl f"
    with t show ?thesis by (simp add: tx_callback_def)
  next
    fix i' c' a' b1' b2'
    assume "fill_loop (si T) (sq T) 3636 count (0, co st, so st, buf1) = Inr (i', c', a', b1')"
      "fill_loop (si T) (sq T) 3636 count (0, co st, so st, buf2) = Inr (i', c', a', b2')"
      "count \<le> i'" "\<forall>j<i'. b1' j = b2' j"
    with t show ?thesis
      by (simp add: tx_callback_def observe_def split: sum.splits)
  qed
qed

text \<open>
  The table cells. Whatever the angle, \<open>127 sin\<close> and \<open>127 cos\<close> lie in
  \<open>[-127, 127]\<close>, and so does their integral part; the bound on \<open>cos (4/3)\<close> comes
  from the Maclaurin expansion with eight terms.
\<close>

lemma cos_coeff_vals:
  "cos_coeff 0 = 1" "cos_coeff 1 = 0" "cos_coeff 2 = - 1/2" "cos_coeff 3 = 0"
  "cos_coeff 4 = 1/24" "cos_coeff 5 = 0" "cos_coeff 6 = - 1/720" "cos_coeff 7 = 0"
  by (simp_all add: cos_coeff_def fact_numeral)

lemma sum8: "(\<Sum>m<8. f m) = f 0 + f 1 + f 2 + f 3 + f 4 + f 5 + f 6 + f 7"
  for f :: "nat \<Rightarrow> real"
proof -
  have "{..<8::nat} = {0, 1, 2, 3, 4, 5, 6, 7}" by auto
  then show ?thesis by simp
qed

lemma cos_sum8: "(\<Sum>m<8. cos_coeff m * x ^ m) = 1 - x^2 / 2 + x^4 / 24 - x^6 / 720"
  unfolding sum8 cos_coeff_vals by simp

lemma cos_four_thirds: "2347 / 10000 < cos (4/3 :: real)" "cos (4/3 :: real) < 2353 / 10000"
proof -
  obtain t :: real where
    c: "cos (4/3) = (\<Sum>m<8. cos_coeff m * (4/3) ^ m)
          + (cos (t + 1/2 * real 8 * pi) / fact 8) * (4/3) ^ 8"
    using Maclaurin_cos_expansion [of "4/3" 8] by blast
  define r where "r = cos (t + 1/2 * real 8 * pi)"
  have r: "- 1 \<le> r" "r \<le> 1" by (simp_all add: r_def)
  have e: "cos (4/3 :: real) =
      1 - (4/3)^2 / 2 + (4/3)^4 / 24 - (4/3)^6 / 720 + r / fact 8 * (4/3) ^ 8"
    using c unfolding cos_sum8 r_def by simp
  have f: "fact 8 = (40320::real)" by (simp add: fact_numeral)
  show "2347 / 10000 < cos (4/3 :: real)" unfolding e f using r by (simp add: field_simps)
  show "cos (4/3 :: real) < 2353 / 10000" unfolding e f using r by (simp add: field_simps)
qed

lemma trunc_zero_bound: "\<bar>x\<bar> \<le> 127 \<Longrightarrow> - 127 \<le> trunc_zero x \<and> trunc_zero x \<le> 127"
  unfolding trunc_zero_def by (auto simp: le_floor_iff floor_le_iff ceiling_le_iff le_ceiling_iff)

lemma int8_of_double_bounded:
  assumes "\<bar>x\<bar> \<le> 127"
  shows "int8_of_double x = Inr (word_of_int (trunc_zero x))"
    and "sint (word_of_int (trunc_zero x) :: 8 word) = trunc_zero x"
proof -
  from trunc_zero_bound [OF assms] have b: "- 127 \<le> trunc_zero x" "trunc_zero x \<le> 127" by simp_all
  then show "int8_of_double x = Inr (word_of_int (trunc_zero x))"
    by (simp add: int8_of_double_def)
  from b show "sint (word_of_int (trunc_zero x) :: 8 word) = trunc_zero x"
    by (simp add: signed_of_int signed_take_bit_int_eq_self)
qed

lemma sin_cell: "\<bar>127 * sin (x::real)\<bar> \<le> 127"
  using abs_sin_le_one [of x] by (simp add: abs_mult)

lemma cos_cell: "\<bar>127 * cos (x::real)\<bar> \<le> 127"
  using abs_cos_le_one [of x] by (simp add: abs_mult)

lemma precalc_defined:
  "precalc_i n s c = Inr (cell (precalc_i n s c))"
  "precalc_q n s c = Inr (cell (precalc_q n s c))"
  by (simp_all add: precalc_i_def precalc_q_def Let_def cell_def
        int8_of_double_bounded(1) sin_cell cos_cell)

lemma precalc_value:
  "sint (cell (precalc_i n s c)) =
     trunc_zero (127 * sin (real c * tau / 10 - dm * cos (real s * tau / n)))"
  "sint (cell (precalc_q n s c)) =
     trunc_zero (127 * cos (real c * tau / 10 - dm * cos (real s * tau / n)))"
  by (simp_all add: precalc_i_def precalc_q_def Let_def cell_def
        int8_of_double_bounded sin_cell cos_cell)


lemma cell_q_0_0: "cell (precalc_q n 0 0) = 29"
proof -
  have "\<lfloor>127 * cos (4/3 :: real)\<rfloor> = 29"
    using cos_four_thirds by (intro floor_unique) simp_all
  moreover have "0 \<le> 127 * cos (4/3 :: real)"
    using cos_four_thirds(1) by simp
  ultimately have t: "trunc_zero (127 * cos (4/3)) = 29"
    by (simp add: trunc_zero_def)
  have "precalc_q n 0 0 = int8_of_double (127 * cos (4/3))"
    by (simp add: precalc_q_def dm_def)
  also have "\<dots> = Inr 29"
    using int8_of_double_bounded(1) [OF cos_cell, of "4/3"] by (simp add: t)
  finally show ?thesis by (simp add: cell_def)
qed

lemma spec_q_0_0: "spec_q N 0 0 = 30"
proof -
  have "round (127 * cos (4/3 :: real)) = 30"
    using cos_four_thirds by (intro round_unique) simp_all
  then show ?thesis by (simp add: spec_q_def)
qed

lemma tables_simps [simp]:
  "mi hackrf_tables s c = cell (precalc_i 6666 s c)"
  "mq hackrf_tables s c = cell (precalc_q 6666 s c)"
  "si hackrf_tables s c = cell (precalc_i 3636 s c)"
  "sq hackrf_tables s c = cell (precalc_q 3636 s c)"
  by (simp_all add: hackrf_tables_def)

text \<open>
  The cell \<^verbatim>\<open>mq[0][0]\<close> does not hinge on the idealisation of the floating-point
  arithmetic: every value from 29 up to 30, and the exact one is about 29.88, converts
  to 29.
\<close>

lemma cast_near_29: "29 \<le> x \<Longrightarrow> x < 30 \<Longrightarrow> int8_of_double x = Inr 29"
proof -
  assume a: "29 \<le> x" "x < 30"
  then have "\<lfloor>x\<rfloor> = 29" by (intro floor_unique) simp_all
  with a show ?thesis by (simp add: int8_of_double_def trunc_zero_def)
qed

section \<open>The phase offsets\<close>

text \<open>
  C5. The ranges \<open>co \<in> [0,10)\<close>, \<open>mo \<in> [0,6666)\<close>, \<open>so \<in> [0,3636)\<close> are an invariant
  of the callback: when they hold before a call whose length the \<^verbatim>\<open>int\<close> index can count
  (every even length that is an \<^verbatim>\<open>int\<close>), the call does not fault, so that every table
  index it used was in range, and they hold after it.
\<close>

theorem offsets_stay_in_range:
  assumes "phase_ok st" "int count \<le> INT_MAX - 1"
  shows "\<exists>st' buf'. tx_callback T st buf count = Inr (st', buf', 0) \<and> phase_ok st'"
proof (cases "ms st")
  case True
  let ?m = "(mo st + int (pairs count 0)) mod 6666"
  have "0 \<le> ?m" "?m < 6666" by simp_all
  then have "0 \<le> (3636 * ?m) div 6666" "(3636 * ?m) div 6666 < 3636" by simp_all
  then have "phase_ok (st\<lparr>co := (co st + int (pairs count 0)) mod 10, mo := ?m,
                      so := (3636 * ?m) div 6666\<rparr>)"
    by (simp add: phase_ok_def)
  with True assms tx_callback_mark [of st count T buf] show ?thesis
    unfolding phase_ok_def by auto
next
  case False
  let ?s = "(so st + int (pairs count 0)) mod 3636"
  have "0 \<le> ?s" "?s < 3636" by simp_all
  then have "0 \<le> (6666 * ?s) div 3636" "(6666 * ?s) div 3636 < 6666" by simp_all
  then have "phase_ok (st\<lparr>co := (co st + int (pairs count 0)) mod 10, so := ?s,
                      mo := (6666 * ?s) div 3636\<rparr>)"
    by (simp add: phase_ok_def)
  with False assms tx_callback_space [of st count T buf] show ?thesis
    unfolding phase_ok_def by auto
qed

theorem offsets_stay_in_range_witness:
  "phase_ok init \<and> int 262144 \<le> INT_MAX - 1 \<and>
   (\<exists>st' buf'. tx_callback hackrf_tables init zero_buffer 262144 = Inr (st', buf', 0)
      \<and> phase_ok st')"
  using phase_ok_init hackrf_length_fits
    offsets_stay_in_range [OF phase_ok_init hackrf_length_fits, of hackrf_tables zero_buffer]
  by blast

text \<open>
  C2. After a call the offset of the tone that was not playing is the floor of the
  proportional image of the offset the playing tone has reached:
  \<open>so = \<lfloor>3636 mo / 6666\<rfloor>\<close> when mark played and \<open>mo = \<lfloor>6666 so / 3636\<rfloor>\<close> when
  space played, for every carrier offset and every offset of the playing tone that is in
  range on entry.
\<close>

theorem inactive_offset_follows:
  assumes "active_ok st" "int count \<le> INT_MAX - 1"
  shows "\<exists>st' buf'. tx_callback T st buf count = Inr (st', buf', 0) \<and>
           (if ms st then so st' = (3636 * mo st') div 6666
            else mo st' = (6666 * so st') div 3636)"
proof -
  from assms obtain st1 buf' where
    r: "tx_callback T st buf count = Inr (every_second st1 count, buf', 0)"
    and i: "ao (\<not> ms st) st1 = (cycle (\<not> ms st) * ao (ms st) st1) div cycle (ms st)"
    by (rule tx_callback_active)
  from i have "if ms st then so st1 = (3636 * mo st1) div 6666
            else mo st1 = (6666 * so st1) div 3636"
    by (simp add: ao_def cycle_def split: if_splits)
  with r show ?thesis by simp
qed

theorem inactive_offset_follows_witness:
  "active_ok init \<and> int 262144 \<le> INT_MAX - 1 \<and>
   (\<exists>st' buf'. tx_callback hackrf_tables init zero_buffer 262144 = Inr (st', buf', 0) \<and>
      mo st' = (6666 * so st') div 3636)"
  using active_ok_init hackrf_length_fits
    inactive_offset_follows [OF active_ok_init hackrf_length_fits, of hackrf_tables zero_buffer]
  by (simp add: init_def)

section \<open>The returned status\<close>

text \<open>
  C7. The callback has no error path: whenever a call returns, it returns 0; and it does
  return, for every phase state whose carrier offset and playing offset are in range and
  every length the \<^verbatim>\<open>int\<close> index can count. (Outside of these the C program reads a
  table out of bounds or overflows the index, and its behaviour is undefined.)
\<close>

theorem tx_callback_returns_0:
  "(\<forall>st' buf' r. tx_callback T st buf count = Inr (st', buf', r) \<longrightarrow> r = 0) \<and>
   (active_ok st \<and> int count \<le> INT_MAX - 1 \<longrightarrow>
      (\<exists>st' buf'. tx_callback T st buf count = Inr (st', buf', 0)))"
proof (intro conjI allI impI)
  fix st' buf' r
  assume "tx_callback T st buf count = Inr (st', buf', r)"
  then show "r = 0" by (rule tx_callback_status)
next
  assume a: "active_ok st \<and> int count \<le> INT_MAX - 1"
  then have "active_ok st" "int count \<le> INT_MAX - 1" by simp_all
  then obtain st1 buf' where
    "tx_callback T st buf count = Inr (every_second st1 count, buf', 0)"
    by (rule tx_callback_active)
  then show "\<exists>st' buf'. tx_callback T st buf count = Inr (st', buf', 0)" by blast
qed

theorem tx_callback_returns_0_witness:
  "active_ok init \<and> int 262144 \<le> INT_MAX - 1 \<and>
   (\<exists>st' buf'. tx_callback hackrf_tables init zero_buffer 262144 = Inr (st', buf', 0))"
proof -
  have "active_ok init \<and> int 262144 \<le> INT_MAX - 1"
    using active_ok_init hackrf_length_fits by simp
  with tx_callback_returns_0 [of hackrf_tables init zero_buffer 262144]
  show ?thesis by simp
qed

section \<open>The tone switch\<close>

text \<open>
  C10. One call flips the tone flag at most once and takes the sample rate off the
  counter at most once, however long the call is: when the counter reaches two or more
  multiples of the sample rate, the flag is flipped once and the counter is still at or
  above the sample rate when the call returns. The counter is a \<^verbatim>\<open>long\<close>: the statement is
  about the calls in which \<^verbatim>\<open>sn += count\<close> stays inside its range, where the stored sum
  is the sum (beyond it the counter wraps, see \<open>every_second_wraps\<close>).
\<close>

theorem one_flip_per_call:
  assumes "active_ok st" "int count \<le> INT_MAX - 1"
    and "LONG_MIN \<le> sn st" "sn st + int count \<le> LONG_MAX"
  shows "\<exists>st' buf'. tx_callback T st buf count = Inr (st', buf', 0) \<and>
           ms st' = (if sr \<le> sn st + int count then \<not> ms st else ms st) \<and>
           sn st' = (if sr \<le> sn st + int count then sn st + int count - sr
                     else sn st + int count) \<and>
           (2 * sr \<le> sn st + int count \<longrightarrow> ms st' = (\<not> ms st) \<and> sr \<le> sn st')"
proof -
  from assms(1,2) obtain st1 buf' where
    r: "tx_callback T st buf count = Inr (every_second st1 count, buf', 0)"
    and i: "ms st1 = ms st" "sn st1 = sn st"
    by (rule tx_callback_active)
  have w: "wrap_long (sn st + int count) = sn st + int count"
    using assms(3,4) by (intro wrap_long_in_range) simp_all
  have "0 \<le> sr" by (simp add: sr_def)
  with r i w show ?thesis
    by (intro exI [of _ "every_second st1 count"] exI [of _ buf'])
       (auto simp: every_second_fields)
qed


theorem one_flip_per_call_witness:
  "active_ok init \<and> int 16000000 \<le> INT_MAX - 1 \<and>
   LONG_MIN \<le> sn init \<and> sn init + int 16000000 \<le> LONG_MAX \<and>
   2 * sr \<le> sn init + int 16000000 \<and>
   (\<exists>st' buf'. tx_callback hackrf_tables init zero_buffer 16000000 = Inr (st', buf', 0) \<and>
      ms st' \<and> sn st' = 8000000 \<and> sr \<le> sn st')"
proof -
  have lo: "LONG_MIN \<le> sn init" by (simp add: LONG_MIN_def init_def)
  have hi: "sn init + int 16000000 \<le> LONG_MAX" by (simp add: LONG_MAX_def init_def)
  from one_flip_per_call [OF active_ok_init two_seconds_fit lo hi, of hackrf_tables zero_buffer]
  have "\<exists>st' buf'. tx_callback hackrf_tables init zero_buffer 16000000 = Inr (st', buf', 0) \<and>
      ms st' \<and> sn st' = 8000000 \<and> sr \<le> sn st'"
    by (simp add: init_def sr_def) blast
  moreover have "2 * sr \<le> sn init + int 16000000" by (simp add: init_def sr_def)
  ultimately show ?thesis using active_ok_init two_seconds_fit lo hi by blast
qed

text \<open>
  C1. The counter does not count complex samples: \<^verbatim>\<open>sn += count\<close> adds the length in
  bytes, two per complex sample. From the initial state a call of 2 bytes (one complex
  sample) leaves \<open>sn = 2\<close>; and with \<open>sn = 7999998\<close>, that is after 3999999 complex
  samples, one more sample flips the tone: half a second of output, not the second that
  the comment \<^verbatim>\<open>// Every second, change.\<close> announces.
\<close>

theorem counter_counts_bytes:
  "(\<exists>st' buf'. tx_callback hackrf_tables init zero_buffer 2 = Inr (st', buf', 0) \<and>
      sn st' = 2 \<and> \<not> ms st') \<and>
   (\<exists>st' buf'. tx_callback hackrf_tables (init\<lparr>sn := 7999998\<rparr>) zero_buffer 2 = Inr (st', buf', 0) \<and>
      sn st' = 0 \<and> ms st')"
proof -
  have k: "int 2 \<le> INT_MAX - 1" by (simp add: INT_MAX_def)
  have a: "active_ok (init\<lparr>sn := 7999998\<rparr>)"
    by (simp add: active_ok_def init_def ao_def cycle_def)
  from active_ok_init k obtain st1 buf1 where
    r1: "tx_callback hackrf_tables init zero_buffer 2 = Inr (every_second st1 2, buf1, 0)"
    and i1: "ms st1 = ms init" "sn st1 = sn init"
    by (rule tx_callback_active)
  from a k obtain st2 buf2 where
    r2: "tx_callback hackrf_tables (init\<lparr>sn := 7999998\<rparr>) zero_buffer 2 = Inr (every_second st2 2, buf2, 0)"
    and i2: "ms st2 = ms (init\<lparr>sn := 7999998\<rparr>)" "sn st2 = sn (init\<lparr>sn := 7999998\<rparr>)"
    by (rule tx_callback_active)
  from r1 i1 have "\<exists>st' buf'. tx_callback hackrf_tables init zero_buffer 2 = Inr (st', buf', 0) \<and>
      sn st' = 2 \<and> \<not> ms st'"
    by (simp add: init_def sr_def every_second_fields wrap_long_def)
  moreover from r2 i2 have "\<exists>st' buf'. tx_callback hackrf_tables (init\<lparr>sn := 7999998\<rparr>) zero_buffer 2 = Inr (st', buf', 0) \<and>
      sn st' = 0 \<and> ms st'"
    by (simp add: init_def sr_def every_second_fields wrap_long_def)
  ultimately show ?thesis by blast
qed

section \<open>The emitted samples\<close>



text \<open>
  C9. The callback is deterministic, and what it delivers does not depend on what the
  buffer held before: from the same phase state and with the same length, two calls on
  any two buffers fault alike or return the same phase state, the same status and the
  same \<open>count\<close> bytes. (The tables are functions of the row and column alone, so that
  two constructions of them are the same tables.)
\<close>

theorem previous_buffer_is_ignored:
  "observe count (tx_callback T st buf1 count) = observe count (tx_callback T st buf2 count)"
  by (cases "ms st") (rule observe_mark, assumption, rule observe_space, assumption)

text \<open>
  C4, as stated, fails. With an odd length the loop still stores a whole pair on its last
  round: from the initial state a call of length 1 stores two bytes, and the byte at
  index 1, past the requested length, is the Q sample \<^verbatim>\<open>sq[0][0]\<close> = 29 where the buffer
  held 0.
\<close>

theorem odd_length_stores_a_pair:
  "tx_callback hackrf_tables init zero_buffer 1 =
     Inr (init\<lparr>co := 1, mo := 1, so := 1, sn := 1\<rparr>,
          zero_buffer(0 := si hackrf_tables 0 0, 1 := sq hackrf_tables 0 0), 0) \<and>
   sq hackrf_tables 0 0 = 29 \<and> zero_buffer 1 = 0"
proof -
  have l: "fill_loop (si hackrf_tables) (sq hackrf_tables) 3636 (Suc 0) (0, 0, 0, zero_buffer) =
      Inr (2, 1, 1, zero_buffer(0 := si hackrf_tables 0 0, Suc 0 := sq hackrf_tables 0 0))"
    by (subst fill_loop.simps, simp add: INT_MAX_def smod_nonneg del: tables_simps,
        subst fill_loop.simps, simp)
  have t: "translate 6666 1 3636 = Inr 1"
    by (simp add: translate_def INT_MIN_def INT_MAX_def sdiv_nonneg)
  have "tx_callback hackrf_tables init zero_buffer 1 =
     Inr (init\<lparr>co := 1, mo := 1, so := 1, sn := 1\<rparr>,
          zero_buffer(0 := si hackrf_tables 0 0, 1 := sq hackrf_tables 0 0), 0)"
    by (simp add: tx_callback_def init_def l t every_second_def wrap_long_def sr_def
          del: tables_simps)
  then show ?thesis by (simp add: cell_q_0_0 zero_buffer_def)
qed

text \<open>
  C4, amended. If the requested length is odd, the callback stores \<open>count + 1\<close> bytes,
  that is \<open>(count + 1) / 2\<close> whole I/Q pairs: the bytes at the indices up to and
  including \<open>count\<close> are the emitted samples, every byte beyond is untouched, and the last
  byte stored, at index \<open>count\<close>, is the Q sample of the last pair.
\<close>

theorem odd_length_stores_one_more:
  assumes "active_ok st" "odd count" "int count \<le> INT_MAX - 1"
  shows "\<exists>st' buf'. tx_callback T st buf count = Inr (st', buf', 0) \<and>
           (\<forall>j. buf' j =
              (if j < count + 1
               then emitted (active_i (ms st) T) (active_q (ms st) T) (cycle (ms st))
                      (co st) (ao (ms st) st) j
               else buf j)) \<and>
           buf' count =
             active_q (ms st) T (nat ((ao (ms st) st + int (count div 2)) mod cycle (ms st)))
               (nat ((co st + int (count div 2)) mod 10))"
proof -
  from assms(1,3) obtain st1 buf' where
    r: "tx_callback T st buf count = Inr (every_second st1 count, buf', 0)"
    and b: "\<forall>j. buf' j = (if j < 2 * pairs count 0
               then emitted (active_i (ms st) T) (active_q (ms st) T) (cycle (ms st))
                      (co st) (ao (ms st) st) j
               else buf j)"
    by (rule tx_callback_active [where T = T and buf = buf])
  have p: "2 * pairs count 0 = count + 1"
    using assms(2) by (auto simp: pairs_def elim: oddE)
  from b assms(2) have "buf' count =
             active_q (ms st) T (nat ((ao (ms st) st + int (count div 2)) mod cycle (ms st)))
               (nat ((co st + int (count div 2)) mod 10))"
    by (simp add: p emitted_def)
  with r b show ?thesis unfolding p by blast
qed

theorem odd_length_stores_one_more_witness:
  "active_ok init \<and> odd (1::nat) \<and> int 1 \<le> INT_MAX - 1 \<and>
   (\<exists>st' buf'. tx_callback hackrf_tables init zero_buffer 1 = Inr (st', buf', 0) \<and>
      buf' 1 = sq hackrf_tables 0 0)"
proof -
  have o: "odd (1::nat)" by simp
  have k: "int 1 \<le> INT_MAX - 1" by (simp add: INT_MAX_def)
  from odd_length_stores_one_more [OF active_ok_init o k, of hackrf_tables zero_buffer]
  obtain st' buf' where
    "tx_callback hackrf_tables init zero_buffer 1 = Inr (st', buf', 0)"
    "buf' 1 = active_q (ms init) hackrf_tables
        (nat ((ao (ms init) init + int (1 div 2)) mod cycle (ms init)))
        (nat ((co init + int (1 div 2)) mod 10))"
    by blast
  then have "\<exists>st' buf'. tx_callback hackrf_tables init zero_buffer 1 = Inr (st', buf', 0) \<and>
      buf' 1 = sq hackrf_tables 0 0"
    by (simp add: init_def active_q_def ao_def cycle_def del: tables_simps)
  with active_ok_init o k show ?thesis by blast
qed

section \<open>The lookup tables\<close>

text \<open>
  C3, as stated, fails: the cast to \<^verbatim>\<open>int8_t\<close> does not round. The cell \<^verbatim>\<open>mq[0][0]\<close>
  is \<open>127 cos (4/3) \<approx> 29.88\<close> cut to 29, and the nearest integer is 30.
\<close>

theorem cells_are_not_rounded: "sint (mq hackrf_tables 0 0) = 29 \<and> spec_q 6666 0 0 = 30"
  by (simp add: cell_q_0_0 spec_q_0_0)

text \<open>
  C3, amended. For every row \<open>s\<close> and carrier step \<open>c\<close> the stored I sample is
  \<open>127 sin (2\<pi>c/10 - 4/3 cos (2\<pi>s/N))\<close> truncated towards zero and the stored Q
  sample is \<open>127 cos (2\<pi>c/10 - 4/3 cos (2\<pi>s/N))\<close> truncated towards zero, with
  \<open>N = 6666\<close> for the mark tables and \<open>N = 3636\<close> for the space tables.
\<close>

theorem cells_are_truncated:
  "sint (mi hackrf_tables s c) =
     trunc_zero (127 * sin (2 * pi * real c / 10 - 4 / 3 * cos (2 * pi * real s / 6666))) \<and>
   sint (mq hackrf_tables s c) =
     trunc_zero (127 * cos (2 * pi * real c / 10 - 4 / 3 * cos (2 * pi * real s / 6666))) \<and>
   sint (si hackrf_tables s c) =
     trunc_zero (127 * sin (2 * pi * real c / 10 - 4 / 3 * cos (2 * pi * real s / 3636))) \<and>
   sint (sq hackrf_tables s c) =
     trunc_zero (127 * cos (2 * pi * real c / 10 - 4 / 3 * cos (2 * pi * real s / 3636)))"
  by (simp add: precalc_value tau_def dm_def mult.commute)

text \<open>
  C6. Every conversion in the table construction is defined (the value fits the
  \<^verbatim>\<open>int8_t\<close> cell), and every stored sample has absolute value at most 127.
\<close>

theorem cells_fit_int8:
  "precalc_i 6666 s c = Inr (mi hackrf_tables s c) \<and> \<bar>sint (mi hackrf_tables s c)\<bar> \<le> 127 \<and>
   precalc_q 6666 s c = Inr (mq hackrf_tables s c) \<and> \<bar>sint (mq hackrf_tables s c)\<bar> \<le> 127 \<and>
   precalc_i 3636 s c = Inr (si hackrf_tables s c) \<and> \<bar>sint (si hackrf_tables s c)\<bar> \<le> 127 \<and>
   precalc_q 3636 s c = Inr (sq hackrf_tables s c) \<and> \<bar>sint (sq hackrf_tables s c)\<bar> \<le> 127"
proof -
  have "\<bar>trunc_zero (127 * sin x)\<bar> \<le> 127" "\<bar>trunc_zero (127 * cos x)\<bar> \<le> 127" for x :: real
    using trunc_zero_bound [OF sin_cell, of x] trunc_zero_bound [OF cos_cell, of x]
    by (simp_all add: abs_le_iff)
  then show ?thesis
    by (simp add: precalc_value precalc_defined [symmetric])
qed

end
